theory Spec2Isabelle
  imports Main "HOL-Library.AList"
begin

section \<open>The link-time wrapper of the indexer (clang_wrapper.py)\<close>

text \<open>
  Python strings are modelled as \<^typ>\<open>string\<close>, lists of strings as \<^typ>\<open>string list\<close>.
  A raised exception is a value of the type \<open>exn\<close>; a function that can raise returns
  \<open>exn + 'a\<close>, with \<open>Inl\<close> for the exception.
\<close>

subsection \<open>String primitives\<close>

definition startswith :: "string \<Rightarrow> string \<Rightarrow> bool" where
  \<comment> \<open>\<open>s.startswith(p)\<close>\<close>
  "startswith s p = (take (length p) s = p)"

definition endswith :: "string \<Rightarrow> string \<Rightarrow> bool" where
  \<comment> \<open>\<open>s.endswith(p)\<close>\<close>
  "endswith s p = (length p \<le> length s \<and> drop (length s - length p) s = p)"

subsection \<open>Flag extraction\<close>

definition flag_token :: "string \<Rightarrow> string \<Rightarrow> bool" where
  \<comment> \<open>the two branch conditions of the loop body, for the argument \<open>a = argv[i]\<close>\<close>
  "flag_token flag a = (a = flag \<or> (flag = ''-o'' \<and> startswith a flag))"

definition flag_at :: "string list \<Rightarrow> string \<Rightarrow> nat \<Rightarrow> bool" where
  "flag_at argv flag i = flag_token flag (argv ! i)"

definition get_flag_value :: "string list \<Rightarrow> string \<Rightarrow> string option" where
  \<comment> \<open>\<open>for i in range(len(argv) - 1)\<close> with its two returning branches; \<open>None\<close> after the loop\<close>
  "get_flag_value argv flag =
     (case find (flag_at argv flag) [0 ..< length argv - 1] of
        None \<Rightarrow> None
      | Some i \<Rightarrow>
          if argv ! i = flag then Some (argv ! (i + 1))
          else Some (drop 2 (argv ! i)))"

definition remove_flag_and_value :: "string list \<Rightarrow> string \<Rightarrow> string list option" where
  \<comment> \<open>both branches return \<open>argv[:i] + argv[i + 2:]\<close>\<close>
  "remove_flag_and_value argv flag =
     (case find (flag_at argv flag) [0 ..< length argv - 1] of
        None \<Rightarrow> None
      | Some i \<Rightarrow> Some (take i argv @ drop (i + 2) argv))"


subsection \<open>Failures\<close>

text \<open>
  The exceptions that the code raises and does not catch, and the two ways in which the
  process fails: an exception that nothing catches, or \<open>sys.exit(code)\<close>.
\<close>

datatype exn =
    AssertionError
  | IndexError
  | KeyError
  | TypeError
  | AttributeError
  | OSError
  | CalledProcessError
  | JSONDecodeError

datatype failure =
    Raised exn
  | SysExit int

subsection \<open>Dependency file parser\<close>

text \<open>
  The characters of a string are modelled as \<^typ>\<open>char\<close>, one per ASCII character.
  \<open>str.strip()\<close> removes the characters for which \<open>str.isspace\<close> holds; among the ASCII
  characters these are the codes 9 to 13 and 28 to 32.
\<close>

definition backslash :: char where
  "backslash = CHR 0x5C"

definition newline :: char where
  "newline = CHR 0x0A"

definition isspace :: "char \<Rightarrow> bool" where
  "isspace c = (let n = (of_char c :: nat) in (9 \<le> n \<and> n \<le> 13) \<or> (28 \<le> n \<and> n \<le> 32))"

definition strip :: "string \<Rightarrow> string" where
  \<comment> \<open>\<open>line.strip()\<close>\<close>
  "strip s = rev (dropWhile isspace (rev (dropWhile isspace s)))"

definition ignored_dep_paths :: "string list" where
  "ignored_dep_paths = [''/usr'', ''/clang'', ''/lib'']"

definition continuation :: string where
  \<comment> \<open>the Python literal \<open>" \\"\<close>: a space and a backslash\<close>
  "continuation = [CHR '' '', backslash]"

definition output_file_line :: "string \<Rightarrow> string" where
  \<comment> \<open>\<open>f"{output_file}: \\"\<close>, for the canonicalized \<open>output_file\<close>\<close>
  "output_file_line output_file = output_file @ [CHR '':'', CHR '' '', backslash]"

definition system_dep :: "string \<Rightarrow> bool" where
  \<comment> \<open>\<open>any([True for p in ignored_dep_paths if dep.startswith(p)])\<close>\<close>
  "system_dep dep = list_ex (startswith dep) ignored_dep_paths"

definition strip_continuation :: "string \<Rightarrow> string" where
  \<comment> \<open>\<open>if line.endswith(" \\"): line = line[:-2]\<close>\<close>
  "strip_continuation line =
     (if endswith line continuation then take (length line - 2) line else line)"

text \<open>
  The loop over \<open>lines[1:]\<close>, with the list \<open>deps\<close> as accumulator. \<open>realpath\<close> stands for
  \<open>os.path.realpath\<close>, which reads the file system, and is a parameter.
\<close>

fun collect_deps ::
  "(string \<Rightarrow> string) \<Rightarrow> string set \<Rightarrow> string list \<Rightarrow> string list \<Rightarrow> string list" where
  "collect_deps realpath ignored_deps [] deps = deps"
| "collect_deps realpath ignored_deps (line # lines) deps =
     (if line = [] then deps
      else
        let dep = realpath (strip_continuation line) in
        if system_dep dep then collect_deps realpath ignored_deps lines deps
        else if dep \<in> ignored_deps then collect_deps realpath ignored_deps lines deps
        else collect_deps realpath ignored_deps lines (deps @ [dep]))"

text \<open>
  \<open>raw_lines\<close> are the lines that iterating over the opened dependency file yields.
  \<open>lines[0]\<close> of an empty file raises \<open>IndexError\<close>; the \<open>assert\<close> raises \<open>AssertionError\<close>.
\<close>

definition parse_dependency_file ::
  "(string \<Rightarrow> string) \<Rightarrow> string list \<Rightarrow> string \<Rightarrow> string set \<Rightarrow> exn + string list" where
  "parse_dependency_file realpath raw_lines output_file ignored_deps =
     (let lines = map strip raw_lines in
      case lines of
        [] \<Rightarrow> Inl IndexError
      | first # rest \<Rightarrow>
          if \<not> endswith (output_file_line (realpath output_file)) first
          then Inl AssertionError
          else Inr (collect_deps realpath ignored_deps rest []))"

subsection \<open>Paths\<close>

definition path_join :: "string \<Rightarrow> string \<Rightarrow> string" where
  \<comment> \<open>\<open>os.path.join(a, b)\<close> of \<open>posixpath\<close>, for two components\<close>
  "path_join a b =
     (if startswith b ''/'' then b
      else if a = [] \<or> endswith a ''/'' then a @ b
      else a @ ''/'' @ b)"

definition basename :: "string \<Rightarrow> string" where
  \<comment> \<open>\<open>os.path.basename(p)\<close>: what follows the last slash\<close>
  "basename p = rev (takeWhile (\<lambda>c. c \<noteq> CHR ''/'') (rev p))"

subsection \<open>Command matcher\<close>

text \<open>
  A compile command of the CDB, with the keys \<open>directory\<close> and \<open>output\<close> that the matcher
  reads and the \<open>arguments\<close> of the data model. The matcher reads the two keys of every
  command; a command without them does not occur in this type.
\<close>

record compile_command =
  directory :: string
  "output" :: string
  arguments :: "string list"

text \<open>
  The dictionary \<open>commands\<close> is an association list in insertion order, as a Python \<open>dict\<close>
  is: \<^const>\<open>AList.update\<close> replaces the value of a key that is present, in place, and
  appends a new key at the end. \<open>list(commands.values())\<close> is \<open>map snd\<close> of it. The
  printed lines are collected in a list.
\<close>

type_synonym commands_dict = "(string \<times> compile_command) list"

type_synonym matcher_state = "commands_dict \<times> string list"

definition command_path :: "(string \<Rightarrow> string) \<Rightarrow> compile_command \<Rightarrow> string" where
  \<comment> \<open>\<open>os.path.realpath(os.path.join(command["directory"], command["output"]))\<close>\<close>
  "command_path realpath command = realpath (path_join (directory command) (output command))"

text \<open>The inner loop \<open>for command in cdb\<close> of the object-file loop; it has no \<open>break\<close>.\<close>

fun scan_cdb_obj ::
  "(string \<Rightarrow> string) \<Rightarrow> string \<Rightarrow> compile_command list \<Rightarrow> commands_dict \<Rightarrow> commands_dict" where
  "scan_cdb_obj realpath dep [] commands = commands"
| "scan_cdb_obj realpath dep (command # cdb) commands =
     (if command_path realpath command = dep
      then scan_cdb_obj realpath dep cdb (AList.update dep command commands)
      else scan_cdb_obj realpath dep cdb commands)"

text \<open>The inner loop of the archive-member loop.\<close>

fun scan_cdb_archive ::
  "string \<Rightarrow> compile_command list \<Rightarrow> commands_dict \<Rightarrow> commands_dict" where
  "scan_cdb_archive archive_dep [] commands = commands"
| "scan_cdb_archive archive_dep (command # cdb) commands =
     (if basename (output command) = archive_dep
      then scan_cdb_archive archive_dep cdb (AList.update archive_dep command commands)
      else scan_cdb_archive archive_dep cdb commands)"

definition not_found :: "string \<Rightarrow> string" where
  \<comment> \<open>\<open>f"{dep} NOT FOUND"\<close>\<close>
  "not_found dep = dep @ '' NOT FOUND''"

definition looking_for :: "string \<Rightarrow> string" where
  \<comment> \<open>\<open>f"Looking for dep {dep}"\<close>\<close>
  "looking_for dep = ''Looking for dep '' @ dep"

text \<open>The loop \<open>for dep in obj_deps\<close>.\<close>

fun match_obj_deps ::
  "(string \<Rightarrow> string) \<Rightarrow> string \<Rightarrow> compile_command list \<Rightarrow> string list \<Rightarrow>
     matcher_state \<Rightarrow> matcher_state" where
  "match_obj_deps realpath fuzzer_engine cdb [] st = st"
| "match_obj_deps realpath fuzzer_engine cdb (dep # obj_deps) (commands, out) =
     (let out1 = out @ [looking_for dep] in
      if dep = fuzzer_engine
      then match_obj_deps realpath fuzzer_engine cdb obj_deps (commands, out1)
      else
        let dep' = realpath dep;
            commands' = scan_cdb_obj realpath dep' cdb commands;
            out2 = (if map_of commands' dep' = None then out1 @ [not_found dep'] else out1)
        in match_obj_deps realpath fuzzer_engine cdb obj_deps (commands', out2))"

text \<open>The loop \<open>for archive_dep in archive_deps\<close>.\<close>

fun match_archive_deps ::
  "compile_command list \<Rightarrow> string list \<Rightarrow> matcher_state \<Rightarrow> matcher_state" where
  "match_archive_deps cdb [] st = st"
| "match_archive_deps cdb (archive_dep # archive_deps) (commands, out) =
     (let commands' = scan_cdb_archive archive_dep cdb commands;
          out' = (if map_of commands' archive_dep = None
                  then out @ [not_found archive_dep] else out)
      in match_archive_deps cdb archive_deps (commands', out'))"

definition match_commands ::
  "(string \<Rightarrow> string) \<Rightarrow> string \<Rightarrow> compile_command list \<Rightarrow> string list \<Rightarrow> string list \<Rightarrow>
     matcher_state" where
  \<comment> \<open>lines 274 to 298 of \<open>main\<close>: \<open>commands = {}\<close> and the two loops\<close>
  "match_commands realpath fuzzer_engine cdb obj_deps archive_deps =
     match_archive_deps cdb archive_deps
       (match_obj_deps realpath fuzzer_engine cdb obj_deps ([], []))"

definition obj_deps_of :: "string list \<Rightarrow> string list" where
  \<comment> \<open>\<open>[dep for dep in deps if dep.endswith(".o")]\<close>\<close>
  "obj_deps_of deps = filter (\<lambda>dep. endswith dep ''.o'') deps"

definition ar_deps_of :: "string \<Rightarrow> string list \<Rightarrow> string list" where
  \<comment> \<open>\<open>[dep for dep in deps if dep.endswith(".a") and dep != fuzzer_engine]\<close>\<close>
  "ar_deps_of fuzzer_engine deps =
     filter (\<lambda>dep. endswith dep ''.a'' \<and> dep \<noteq> fuzzer_engine) deps"

text \<open>
  The commands of the CDB that the two inner loops accept for a key, in CDB order: the
  condition \<open>command_path == dep\<close> of the object-file loop and the condition
  \<open>os.path.basename(command["output"]) == archive_dep\<close> of the archive-member loop.
\<close>

definition obj_matches ::
  "(string \<Rightarrow> string) \<Rightarrow> compile_command list \<Rightarrow> string \<Rightarrow> compile_command list" where
  "obj_matches realpath cdb dep =
     filter (\<lambda>command. command_path realpath command = dep) cdb"

definition archive_matches :: "compile_command list \<Rightarrow> string \<Rightarrow> compile_command list" where
  "archive_matches cdb archive_dep =
     filter (\<lambda>command. basename (output command) = archive_dep) cdb"

subsection \<open>Fragment store reader\<close>

text \<open>
  What \<open>os.listdir\<close>, \<open>os.path.isfile\<close>, \<open>os.path.getctime\<close> and \<open>f.read()\<close> tell about
  one entry of the fragment directory. The creation time is a number; only its order is
  used.
\<close>

record dir_entry =
  entry_name :: string
  entry_isfile :: bool
  entry_ctime :: int
  entry_data :: string

definition files_by_creation_time :: "string \<Rightarrow> dir_entry list \<Rightarrow> (string \<times> dir_entry) list" where
  \<comment> \<open>the paths of the regular files, each with its entry, sorted by creation time;
      \<open>list.sort\<close> is stable, as \<^const>\<open>sort_key\<close> is\<close>
  "files_by_creation_time folder_path listing =
     sort_key (\<lambda>(file, entry). entry_ctime entry)
       (map (\<lambda>entry. (path_join folder_path (entry_name entry), entry))
          (filter entry_isfile listing))"

definition sentinel :: string where
  \<comment> \<open>the Python literal \<open>",\n"\<close>\<close>
  "sentinel = [CHR '','', newline]"

text \<open>The loop \<open>for file in files\<close>, with the list \<open>contents\<close> as accumulator.\<close>

fun collect_fragments ::
  "(string \<times> dir_entry) list \<Rightarrow> string list \<Rightarrow> exn + string list" where
  "collect_fragments [] contents = Inr contents"
| "collect_fragments ((file, entry) # files) contents =
     (if endswith file ''_linker_commands.json'' then collect_fragments files contents
      else if \<not> endswith file ''.json'' then collect_fragments files contents
      else
        let data = entry_data entry in
        if \<not> endswith data sentinel then Inl AssertionError
        else collect_fragments files (contents @ [take (length data - 2) data]))"

fun str_join :: "string \<Rightarrow> string list \<Rightarrow> string" where
  \<comment> \<open>\<open>sep.join(xs)\<close>\<close>
  "str_join sep [] = []"
| "str_join sep [x] = x"
| "str_join sep (x # y # xs) = x @ sep @ str_join sep (y # xs)"

text \<open>\<open>loads\<close> stands for \<open>json.loads\<close>.\<close>

definition read_cdb_fragments ::
  "(string \<Rightarrow> exn + 'a) \<Rightarrow> string \<Rightarrow> dir_entry list \<Rightarrow> exn + 'a" where
  "read_cdb_fragments loads cdb_path listing =
     (case collect_fragments (files_by_creation_time cdb_path listing) [] of
        Inl e \<Rightarrow> Inl e
      | Inr contents \<Rightarrow> loads (''['' @ str_join sentinel contents @ '']''))"

definition fragment_file :: "string \<Rightarrow> bool" where
  \<comment> \<open>the two suffix tests that a path passes to be read\<close>
  "fragment_file file = (\<not> endswith file ''_linker_commands.json'' \<and> endswith file ''.json'')"

subsection \<open>Binary identity extractor\<close>

text \<open>
  The values that \<open>json.loads\<close> returns, with Python's \<open>None\<close> as \<open>JNull\<close>. A JSON object is
  a \<open>dict\<close>: an association list with distinct keys. Numbers with a fraction or an exponent
  do not occur in the notes that \<open>llvm-readelf\<close> prints and are left out.
\<close>

datatype pyjson =
    JNull
  | JBool bool
  | JInt int
  | JString string
  | JArray "pyjson list"
  | JObject "(string \<times> pyjson) list"

definition and_then :: "'e + 'a \<Rightarrow> ('a \<Rightarrow> 'e + 'b) \<Rightarrow> 'e + 'b" where
  \<comment> \<open>sequencing: a failure ends the computation\<close>
  "and_then r f = (case r of Inl e \<Rightarrow> Inl e | Inr x \<Rightarrow> f x)"

fun py_truthy :: "pyjson \<Rightarrow> bool" where
  \<comment> \<open>the truth value that \<open>assert\<close> tests\<close>
  "py_truthy JNull = False"
| "py_truthy (JBool b) = b"
| "py_truthy (JInt n) = (n \<noteq> 0)"
| "py_truthy (JString s) = (s \<noteq> [])"
| "py_truthy (JArray xs) = (xs \<noteq> [])"
| "py_truthy (JObject kvs) = (kvs \<noteq> [])"

fun py_iter :: "pyjson \<Rightarrow> exn + pyjson list" where
  \<comment> \<open>the elements that a \<open>for\<close> loop visits: of a dict its keys, of a string its characters\<close>
  "py_iter (JArray xs) = Inr xs"
| "py_iter (JObject kvs) = Inr (map (\<lambda>kv. JString (fst kv)) kvs)"
| "py_iter (JString s) = Inr (map (\<lambda>c. JString [c]) s)"
| "py_iter _ = Inl TypeError"

fun py_getitem :: "pyjson \<Rightarrow> string \<Rightarrow> exn + pyjson" where
  \<comment> \<open>\<open>x[key]\<close> for a string \<open>key\<close>\<close>
  "py_getitem (JObject kvs) key =
     (case map_of kvs key of None \<Rightarrow> Inl KeyError | Some v \<Rightarrow> Inr v)"
| "py_getitem _ key = Inl TypeError"

definition substring :: "string \<Rightarrow> string \<Rightarrow> bool" where
  "substring key s = list_ex (\<lambda>i. take (length key) (drop i s) = key) [0 ..< Suc (length s)]"

fun py_contains :: "pyjson \<Rightarrow> string \<Rightarrow> exn + bool" where
  \<comment> \<open>\<open>key in x\<close> for a string \<open>key\<close>\<close>
  "py_contains (JObject kvs) key = Inr (key \<in> set (map fst kvs))"
| "py_contains (JArray xs) key = Inr (JString key \<in> set xs)"
| "py_contains (JString s) key = Inr (substring key s)"
| "py_contains _ key = Inl TypeError"

text \<open>
  The inner loop \<open>for note_entry in file_info["Notes"]\<close>: \<open>Some v\<close> when the function
  returns \<open>v\<close> from inside the loop, \<open>None\<close> when the loop ends.
\<close>

fun scan_notes :: "pyjson list \<Rightarrow> exn + pyjson option" where
  "scan_notes [] = Inr None"
| "scan_notes (note_entry # notes) =
     and_then (py_getitem note_entry ''NoteSection'') (\<lambda>note_section.
     and_then (py_getitem note_section ''Name'') (\<lambda>name.
       if name = JString ''.note.gnu.build-id'' then
         and_then (py_getitem note_section ''Note'') (\<lambda>note_details.
         and_then (py_contains note_details ''Build ID'') (\<lambda>present.
           if present then
             and_then (py_getitem note_details ''Build ID'') (\<lambda>v. Inr (Some v))
           else scan_notes notes))
       else scan_notes notes))"

text \<open>The outer loop \<open>for file_info in elf_data\<close>.\<close>

fun scan_files :: "pyjson list \<Rightarrow> exn + pyjson option" where
  "scan_files [] = Inr None"
| "scan_files (file_info # files) =
     and_then (py_getitem file_info ''Notes'') (\<lambda>notes.
     and_then (py_iter notes) (\<lambda>entries.
     and_then (scan_notes entries) (\<lambda>found.
       case found of Some v \<Rightarrow> Inr (Some v) | None \<Rightarrow> scan_files files)))"

definition get_build_id_from_elf_notes ::
  "(string \<Rightarrow> exn + pyjson) \<Rightarrow> string \<Rightarrow> exn + pyjson" where
  \<comment> \<open>\<open>_get_build_id_from_elf_notes\<close>; the result \<open>JNull\<close> is Python's \<open>None\<close>\<close>
  "get_build_id_from_elf_notes loads contents =
     and_then (loads contents) (\<lambda>elf_data.
       if \<not> py_truthy elf_data then Inl AssertionError
       else
         and_then (py_iter elf_data) (\<lambda>files.
         and_then (scan_files files) (\<lambda>found.
           Inr (case found of Some v \<Rightarrow> v | None \<Rightarrow> JNull))))"

subsection \<open>Link interception dispatcher\<close>

text \<open>
  What the process reads from outside: the environment, the file system and the child
  processes. \<open>w_run\<close> is the return code of the augmented link command; \<open>w_readelf\<close> and
  \<open>w_ar_t\<close> are the return code and the captured output of \<open>llvm-readelf\<close> and of \<open>ar -t\<close>;
  \<open>w_ignored_deps\<close> is \<open>frozenset(json.load(f)["deps"])\<close> for the fixed configuration file;
  \<open>w_loads_cdb\<close> is \<open>json.loads\<close> on the reassembled CDB, its objects read as compile
  commands.
\<close>

record world =
  w_getenv :: "string option"
  w_realpath :: "string \<Rightarrow> string"
  w_getcwd :: string
  w_run :: "string list \<Rightarrow> int"
  w_readelf :: "string \<Rightarrow> int \<times> string"
  w_loads_notes :: "string \<Rightarrow> exn + pyjson"
  w_sha256 :: "string \<Rightarrow> exn + string"
  w_ignored_deps :: "exn + string set"
  w_read_lines :: "string \<Rightarrow> exn + string list"
  w_ar_t :: "string \<Rightarrow> int \<times> string list"
  w_listdir :: "string \<Rightarrow> exn + dir_entry list"
  w_loads_cdb :: "string \<Rightarrow> exn + compile_command list"

record linker_commands =
  lc_output :: string
  lc_directory :: string
  lc_deps :: "string list"
  lc_args :: "string list"
  lc_sha256 :: string
  lc_gnu_build_id :: string
  lc_compile_commands :: "compile_command list"

text \<open>
  How an invocation ends: the process is replaced by the real compiler (\<open>os.execv\<close>), or it
  fails, or it writes the provenance record to a path; the last carries the lines the
  matcher printed. The record file is written nowhere else.
\<close>

datatype outcome =
    Executed "string list"
  | Failed failure
  | Written string linker_commands "string list"

definition local_bin :: "string list \<Rightarrow> exn + string list" where
  \<comment> \<open>\<open>argv[0] = os.path.join("/usr/local/bin/", os.path.basename(argv[0]))\<close>\<close>
  "local_bin argv =
     (case argv of
        [] \<Rightarrow> Inl IndexError
      | a # rest \<Rightarrow> Inr (path_join ''/usr/local/bin/'' (basename a) # rest))"

definition execute :: "string list \<Rightarrow> outcome" where
  "execute argv =
     (case local_bin argv of Inl e \<Rightarrow> Failed (Raised e) | Inr argv' \<Rightarrow> Executed argv')"

definition raised :: "exn + 'a \<Rightarrow> failure + 'a" where
  \<comment> \<open>an exception that reaches the top of \<open>main\<close>\<close>
  "raised r = (case r of Inl e \<Rightarrow> Inl (Raised e) | Inr x \<Rightarrow> Inr x)"

definition run :: "world \<Rightarrow> string list \<Rightarrow> failure + string list" where
  \<comment> \<open>returns \<open>argv\<close> as the call leaves it, or \<open>sys.exit(ret.returncode)\<close>\<close>
  "run w argv =
     and_then (raised (local_bin argv)) (\<lambda>argv'.
       if w_run w argv' \<noteq> 0 then Inl (SysExit (w_run w argv')) else Inr argv')"

definition get_build_id :: "world \<Rightarrow> string \<Rightarrow> exn + pyjson" where
  \<comment> \<open>\<open>check=True\<close> raises \<open>CalledProcessError\<close> on a non-zero return code\<close>
  "get_build_id w elf_file =
     (case w_readelf w elf_file of
        (returncode, stdout) \<Rightarrow>
          if returncode \<noteq> 0 then Inl CalledProcessError
          else get_build_id_from_elf_notes (w_loads_notes w) stdout)"

text \<open>The loop \<open>for archive in ar_deps\<close>, with the list \<open>archive_deps\<close> as accumulator.\<close>

fun list_archives :: "world \<Rightarrow> string list \<Rightarrow> string list \<Rightarrow> exn + string list" where
  "list_archives w [] archive_deps = Inr archive_deps"
| "list_archives w (archive # ar_deps) archive_deps =
     (case w_ar_t w archive of
        (returncode, members) \<Rightarrow>
          if returncode \<noteq> 0 then Inl CalledProcessError
          else list_archives w ar_deps (archive_deps @ members))"

definition dependency_file_of :: "string \<Rightarrow> string \<Rightarrow> string" where
  "dependency_file_of cdb_path output_file = path_join cdb_path (basename output_file @ ''.deps'')"

definition why_extract_file_of :: "string \<Rightarrow> string \<Rightarrow> string" where
  "why_extract_file_of cdb_path output_file =
     path_join cdb_path (basename output_file @ ''.why_extract'')"

definition link_argv :: "string list \<Rightarrow> string \<Rightarrow> string \<Rightarrow> string list" where
  \<comment> \<open>the four \<open>argv.append\<close> calls\<close>
  "link_argv argv cdb_path output_file =
     argv @ [''-fuse-ld=lld'',
             ''-Wl,--dependency-file='' @ dependency_file_of cdb_path output_file,
             ''-Wl,--why-extract='' @ why_extract_file_of cdb_path output_file,
             ''-Wl,--build-id'']"

definition commands_path_of :: "string \<Rightarrow> string \<Rightarrow> string" where
  "commands_path_of cdb_path build_id = path_join cdb_path (build_id @ ''_linker_commands.json'')"

text \<open>
  The part of \<open>main\<close> after the passthrough test, in three pieces. An \<open>assert\<close> on a flag
  value fails for \<open>None\<close> and for the empty string. \<open>build_id + "_linker_commands.json"\<close>
  raises \<open>TypeError\<close> when the build id is not a string.
\<close>

definition write_record ::
  "world \<Rightarrow> string \<Rightarrow> string \<Rightarrow> string list \<Rightarrow> pyjson \<Rightarrow> string \<Rightarrow> string list \<Rightarrow>
     string list \<Rightarrow> matcher_state \<Rightarrow> exn + string \<times> linker_commands \<times> string list" where
  \<comment> \<open>lines 300 to 312: the dictionary \<open>linker_commands\<close> and the path it is written to\<close>
  "write_record w cdb_path output_file argv build_id output_hash obj_deps archive_deps st =
     (case build_id of
        JString b \<Rightarrow>
          Inr (commands_path_of cdb_path b,
               \<lparr>lc_output = output_file,
                lc_directory = w_getcwd w,
                lc_deps = obj_deps @ archive_deps,
                lc_args = argv,
                lc_sha256 = output_hash,
                lc_gnu_build_id = b,
                lc_compile_commands = map snd (fst st)\<rparr>,
               snd st)
      | _ \<Rightarrow> Inl TypeError)"

definition link_and_record ::
  "world \<Rightarrow> string \<Rightarrow> string \<Rightarrow> string \<Rightarrow> string list \<Rightarrow>
     failure + string \<times> linker_commands \<times> string list" where
  \<comment> \<open>lines 245 to 312, for the flag values and the argument list without the fragment flag\<close>
  "link_and_record w fuzzer_engine output_file cdb_path argv1 =
     and_then (run w (link_argv argv1 cdb_path output_file)) (\<lambda>argv2.
     raised (
     and_then (get_build_id w output_file) (\<lambda>build_id.
     if build_id = JNull then Inl AssertionError else
     and_then (w_sha256 w output_file) (\<lambda>output_hash.
     and_then (w_ignored_deps w) (\<lambda>ignored_deps.
     and_then (w_read_lines w (dependency_file_of cdb_path output_file)) (\<lambda>raw_lines.
     and_then (parse_dependency_file (w_realpath w) raw_lines output_file ignored_deps) (\<lambda>deps.
     and_then (list_archives w (ar_deps_of fuzzer_engine deps) []) (\<lambda>archive_deps.
     and_then (w_listdir w cdb_path) (\<lambda>listing.
     and_then (read_cdb_fragments (w_loads_cdb w) cdb_path listing) (\<lambda>cdb.
       write_record w cdb_path output_file argv2 build_id output_hash
         (obj_deps_of deps) archive_deps
         (match_commands (w_realpath w) fuzzer_engine cdb (obj_deps_of deps) archive_deps)))))))))))"

definition capture ::
  "world \<Rightarrow> string \<Rightarrow> string list \<Rightarrow> failure + string \<times> linker_commands \<times> string list" where
  \<comment> \<open>lines 236 to 242: the two flag values with their \<open>assert\<close>s, and the removal of the
      fragment flag; \<open>argv.append\<close> on \<open>None\<close> would raise \<open>AttributeError\<close>\<close>
  "capture w fuzzer_engine argv =
     (case get_flag_value argv ''-o'' of
        None \<Rightarrow> Inl (Raised AssertionError)
      | Some output_file \<Rightarrow>
          if output_file = [] then Inl (Raised AssertionError)
          else
            (case get_flag_value argv ''-gen-cdb-fragment-path'' of
               None \<Rightarrow> Inl (Raised AssertionError)
             | Some cdb_path \<Rightarrow>
                 if cdb_path = [] then Inl (Raised AssertionError)
                 else
                   (case remove_flag_and_value argv ''-gen-cdb-fragment-path'' of
                      None \<Rightarrow> Inl (Raised AttributeError)
                    | Some argv1 \<Rightarrow>
                        link_and_record w fuzzer_engine output_file cdb_path argv1)))"

definition main :: "world \<Rightarrow> string list \<Rightarrow> outcome" where
  "main w argv =
     (case w_getenv w of
        None \<Rightarrow> execute argv
      | Some fuzzer_engine \<Rightarrow>
          if fuzzer_engine = [] \<or>
             (fuzzer_engine \<notin> set argv \<and> ''-lFuzzingEngine'' \<notin> set argv)
          then execute argv
          else (case capture w fuzzer_engine argv of
                  Inl e \<Rightarrow> Failed e
                | Inr (path, record, out) \<Rightarrow> Written path record out))"


subsection \<open>The JSON decoder\<close>

text \<open>
  \<open>json.loads\<close> of the Python library, as far as the structure of the text goes: a value of
  type \<open>jvalue\<close> is the tree that the decoder builds, with strings and numbers as they are
  written in the text and the members of an object in the order of the text. The limit
  of the interpreter on the depth of nesting is not modelled.
\<close>

datatype jvalue =
    VObject "(string \<times> jvalue) list"
  | VArray "jvalue list"
  | VString string
  | VNumber string
  | VTrue
  | VFalse
  | VNull

text \<open>The four characters that the decoder skips between tokens.\<close>

definition json_ws :: "char \<Rightarrow> bool" where
  "json_ws c = (c = CHR '' '' \<or> c = CHR 0x09 \<or> c = CHR 0x0A \<or> c = CHR 0x0D)"

definition skip_ws :: "string \<Rightarrow> string" where
  "skip_ws s = dropWhile json_ws s"

definition is_digit :: "char \<Rightarrow> bool" where
  "is_digit c = (c \<in> set ''0123456789'')"

definition is_hex :: "char \<Rightarrow> bool" where
  "is_hex c = (c \<in> set ''0123456789abcdefABCDEF'')"

definition simple_escape :: "char \<Rightarrow> bool" where
  "simple_escape c = (c = CHR 0x22 \<or> c = CHR 0x5C \<or> c \<in> set ''/bfnrt'')"

text \<open>
  A string: the characters up to the closing quote. A backslash starts an escape sequence,
  a control character is refused. The content is kept as it is written, escape sequences
  included.
\<close>

definition escape_len :: "string \<Rightarrow> nat option" where
  \<comment> \<open>the length of the escape sequence that follows a backslash\<close>
  "escape_len cs =
     (case cs of
        [] \<Rightarrow> None
      | e # cs' \<Rightarrow>
          if simple_escape e then Some 1
          else if e = CHR ''u'' \<and> 4 \<le> length cs' \<and> list_all is_hex (take 4 cs') then Some 5
          else None)"

function lex_string :: "string \<Rightarrow> (string \<times> string) option" where
  "lex_string [] = None"
| "lex_string (c # cs) =
     (if c = CHR 0x22 then Some ([], cs)
      else if c = CHR 0x5C then
        (case escape_len cs of
           None \<Rightarrow> None
         | Some n \<Rightarrow>
             (case lex_string (drop n cs) of
                None \<Rightarrow> None
              | Some (content, rest) \<Rightarrow> Some (c # take n cs @ content, rest)))
      else if (of_char c :: nat) < 32 then None
      else
        (case lex_string cs of
           None \<Rightarrow> None
         | Some (content, rest) \<Rightarrow> Some (c # content, rest)))"
  by pat_completeness auto
termination
  by (relation "measure length") auto

text \<open>
  A number: the longest prefix that the pattern
  \<open>(-?(?:0|[1-9]\d*))(\.\d+)?([eE][-+]?\d+)?\<close> of the decoder matches, kept as it is
  written.
\<close>

definition lex_digits :: "string \<Rightarrow> (string \<times> string) option" where
  \<comment> \<open>one or more digits\<close>
  "lex_digits s = (if takeWhile is_digit s = [] then None
                   else Some (takeWhile is_digit s, dropWhile is_digit s))"

definition lex_unsigned :: "string \<Rightarrow> (string \<times> string) option" where
  \<comment> \<open>\<open>(?:0|[1-9]\d*)\<close>\<close>
  "lex_unsigned s =
     (case s of
        [] \<Rightarrow> None
      | d # r \<Rightarrow>
          if d = CHR ''0'' then Some ([d], r)
          else if is_digit d then Some (d # takeWhile is_digit r, dropWhile is_digit r)
          else None)"

definition lex_int :: "string \<Rightarrow> (string \<times> string) option" where
  \<comment> \<open>\<open>-?(?:0|[1-9]\d*)\<close>\<close>
  "lex_int s =
     (case s of
        [] \<Rightarrow> None
      | c # r \<Rightarrow>
          if c = CHR ''-'' then
            (case lex_unsigned r of None \<Rightarrow> None | Some (ds, r') \<Rightarrow> Some (c # ds, r'))
          else lex_unsigned s)"

definition lex_frac :: "string \<Rightarrow> string \<times> string" where
  \<comment> \<open>\<open>(\.\d+)?\<close>\<close>
  "lex_frac s =
     (case s of
        c # r \<Rightarrow>
          if c = CHR ''.'' then
            (case lex_digits r of None \<Rightarrow> ([], s) | Some (ds, r') \<Rightarrow> (c # ds, r'))
          else ([], s)
      | [] \<Rightarrow> ([], s))"

definition lex_sign :: "string \<Rightarrow> string \<times> string" where
  \<comment> \<open>\<open>[-+]?\<close>\<close>
  "lex_sign s =
     (case s of
        [] \<Rightarrow> ([], s)
      | g # r \<Rightarrow> if g = CHR ''-'' \<or> g = CHR ''+'' then ([g], r) else ([], s))"

definition lex_exp :: "string \<Rightarrow> string \<times> string" where
  \<comment> \<open>\<open>([eE][-+]?\d+)?\<close>\<close>
  "lex_exp s =
     (case s of
        [] \<Rightarrow> ([], s)
      | c # r \<Rightarrow>
          if c = CHR ''e'' \<or> c = CHR ''E'' then
            (case lex_sign r of
               (sg, r1) \<Rightarrow>
                 (case lex_digits r1 of
                    None \<Rightarrow> ([], s)
                  | Some (ds, r2) \<Rightarrow> (c # sg @ ds, r2)))
          else ([], s))"

definition lex_number :: "string \<Rightarrow> (string \<times> string) option" where
  "lex_number s =
     (case lex_int s of
        None \<Rightarrow> None
      | Some (i, r1) \<Rightarrow>
          (case lex_frac r1 of (f, r2) \<Rightarrow>
          (case lex_exp r2 of (e, r3) \<Rightarrow> Some (i @ f @ e, r3))))"

definition lex_literal :: "string \<Rightarrow> (jvalue \<times> string) option" where
  \<comment> \<open>the constants and the numbers, tried in the order of the scanner\<close>
  "lex_literal s =
     (if startswith s ''null'' then Some (VNull, drop 4 s)
      else if startswith s ''true'' then Some (VTrue, drop 4 s)
      else if startswith s ''false'' then Some (VFalse, drop 5 s)
      else
        (case lex_number s of
           Some (lexeme, r) \<Rightarrow> Some (VNumber lexeme, r)
         | None \<Rightarrow>
             if startswith s ''NaN'' then Some (VNumber ''NaN'', drop 3 s)
             else if startswith s ''Infinity'' then Some (VNumber ''Infinity'', drop 8 s)
             else if startswith s ''-Infinity'' then Some (VNumber ''-Infinity'', drop 9 s)
             else None))"

text \<open>
  The recursive descent over values, over the elements of an array after its opening
  bracket, and over the members of an object after its opening brace; \<open>Elements\<close> returns
  a \<open>VArray\<close> and \<open>Members\<close> a \<open>VObject\<close>, each with the input that follows the closing
  bracket. A recursive call after another call is made on a shorter input only; the test
  on the lengths is always passed (lemma \<open>parse_length\<close>).
\<close>

datatype mode = Value | Elements | Members

function (sequential) parse :: "mode \<Rightarrow> string \<Rightarrow> (jvalue \<times> string) option" where
  "parse Value s =
     (case skip_ws s of
        [] \<Rightarrow> None
      | c # r \<Rightarrow>
          if c = CHR ''['' then
            (case skip_ws r of
               [] \<Rightarrow> None
             | c' # r' \<Rightarrow> if c' = CHR '']'' then Some (VArray [], r') else parse Elements r)
          else if c = CHR ''{'' then
            (case skip_ws r of
               [] \<Rightarrow> None
             | c' # r' \<Rightarrow> if c' = CHR ''}'' then Some (VObject [], r') else parse Members r)
          else if c = CHR 0x22 then
            (case lex_string r of None \<Rightarrow> None | Some (content, r') \<Rightarrow> Some (VString content, r'))
          else lex_literal (c # r))"
| "parse Elements s =
     (case parse Value s of
        None \<Rightarrow> None
      | Some (v, r) \<Rightarrow>
          (case skip_ws r of
             [] \<Rightarrow> None
           | c # r' \<Rightarrow>
               if c = CHR '','' then
                 (if length r' < length s then
                    (case parse Elements r' of
                       Some (VArray vs, r'') \<Rightarrow> Some (VArray (v # vs), r'')
                     | _ \<Rightarrow> None)
                  else None)
               else if c = CHR '']'' then Some (VArray [v], r')
               else None))"
| "parse Members s =
     (case skip_ws s of
        [] \<Rightarrow> None
      | q # r0 \<Rightarrow>
          if q \<noteq> CHR 0x22 then None
          else
            (case lex_string r0 of
               None \<Rightarrow> None
             | Some (key, r1) \<Rightarrow>
                 (case skip_ws r1 of
                    [] \<Rightarrow> None
                  | c # r2 \<Rightarrow>
                      if c \<noteq> CHR '':'' then None
                      else if \<not> length r2 < length s then None
                      else
                        (case parse Value r2 of
                           None \<Rightarrow> None
                         | Some (v, r3) \<Rightarrow>
                             (case skip_ws r3 of
                                [] \<Rightarrow> None
                              | c' # r4 \<Rightarrow>
                                  if c' = CHR '','' then
                                    (if length r4 < length s then
                                       (case parse Members r4 of
                                          Some (VObject kvs, r5) \<Rightarrow> Some (VObject ((key, v) # kvs), r5)
                                        | _ \<Rightarrow> None)
                                     else None)
                                  else if c' = CHR ''}'' then Some (VObject [(key, v)], r4)
                                  else None)))))"
  by pat_completeness auto

termination
proof -
  have shorter: "length r < length s" if "skip_ws s = c # r" for s c r
  proof -
    have "length (skip_ws s) \<le> length s"
      by (simp add: skip_ws_def length_dropWhile_le)
    with that show ?thesis by simp
  qed
  show ?thesis
    by (relation "measure (\<lambda>(m, s). 2 * length s +
                            (case m of Value \<Rightarrow> 0 | Elements \<Rightarrow> 1 | Members \<Rightarrow> 1))")
       (auto dest!: shorter)
qed




text \<open>
  For the examples: \<open>os.path.realpath\<close> on a file system without symbolic links, for
  paths that are absolute and normalized already. It returns such a path unchanged.
\<close>

definition realpath_plain :: "string \<Rightarrow> string" where
  "realpath_plain p = p"

text \<open>
  For the examples: two compile commands for the same object file \<open>/src/a.o\<close>, the older
  one first in CDB order, and a command for \<open>/src/b.o\<close>.
\<close>

definition cmd_a_old :: compile_command where
  "cmd_a_old = \<lparr>directory = ''/src'', output = ''a.o'', arguments = [''clang'', ''-c'', ''old.c'']\<rparr>"

definition cmd_a_new :: compile_command where
  "cmd_a_new = \<lparr>directory = ''/src'', output = ''a.o'', arguments = [''clang'', ''-c'', ''new.c'']\<rparr>"

definition cmd_b :: compile_command where
  "cmd_b = \<lparr>directory = ''/src'', output = ''b.o'', arguments = [''clang'', ''-c'', ''b.c'']\<rparr>"


text \<open>
  For the examples: a fragment directory with two complete fragments, a provenance record
  of an earlier link, a fragment whose write was torn, and a complete fragment under a
  name without the \<open>.json\<close> suffix.
\<close>

definition object_a :: string where
  "object_a = ''{\"directory\": \"/src\", \"output\": \"a.o\", \"arguments\": [\"clang\", \"-c\", \"a.c\"]}''"

definition object_b :: string where
  "object_b = ''{\"directory\": \"/src\", \"output\": \"b.o\", \"arguments\": []}''"


definition frag_a :: dir_entry where
  "frag_a = \<lparr>entry_name = ''a.c.1234.json'', entry_isfile = True, entry_ctime = 20,
     entry_data = object_a @ sentinel\<rparr>"

definition frag_b :: dir_entry where
  "frag_b = \<lparr>entry_name = ''b.c.5678.json'', entry_isfile = True, entry_ctime = 10,
     entry_data = object_b @ sentinel\<rparr>"

definition old_record :: dir_entry where
  "old_record = \<lparr>entry_name = ''abc_linker_commands.json'', entry_isfile = True, entry_ctime = 5,
     entry_data = ''{\"output\": \"/out/prog\"}''\<rparr>"

definition frag_torn :: dir_entry where
  "frag_torn = \<lparr>entry_name = ''c.c.9999.json'', entry_isfile = True, entry_ctime = 15,
     entry_data = ''{\"directory\": \"/src\", \"outp''\<rparr>"



text \<open>
  For the examples: the notes of a linked binary, the lines of its dependency file, a world
  in which a link of \<open>/out/prog\<close> succeeds, and the arguments of that link.
\<close>

definition notes_json :: pyjson where
  "notes_json =
     JArray [JObject
       [(''FileSummary'', JObject [(''File'', JString ''/out/prog'')]),
        (''Notes'', JArray
           [JObject [(''NoteSection'', JObject
               [(''Name'', JString ''.note.ABI-tag''),
                (''Note'', JObject [(''OS'', JString ''Linux'')])])],
            JObject [(''NoteSection'', JObject
               [(''Name'', JString ''.note.gnu.build-id''),
                (''Note'', JObject [(''Owner'', JString ''GNU''),
                                    (''Build ID'', JString ''a03df61c5b0c26f3'')])])]])]]"

definition dep_lines :: "string list" where
  "dep_lines =
     [''/out/prog: '' @ [backslash, newline],
      ''  /src/a.o '' @ [backslash, newline],
      ''  /usr/lib/libc.a '' @ [backslash, newline],
      ''  /work/libFuzzingEngine.a '' @ [backslash, newline],
      ''  /work/lib.a'' @ [newline],
      [newline]]"

definition world_ok :: world where
  "world_ok =
     \<lparr>w_getenv = Some ''/work/libFuzzingEngine.a'', w_realpath = realpath_plain,
      w_getcwd = ''/src'', w_run = (\<lambda>argv. 0), w_readelf = (\<lambda>file. (0, ''notes'')),
      w_loads_notes = (\<lambda>text. Inr notes_json), w_sha256 = (\<lambda>file. Inr ''abcd''),
      w_ignored_deps = Inr {}, w_read_lines = (\<lambda>file. Inr dep_lines),
      w_ar_t = (\<lambda>archive. (0, [''b.o''])),
      w_listdir = (\<lambda>dir. Inr [frag_a, frag_b, old_record]),
      w_loads_cdb = (\<lambda>text. Inr [cmd_b, cmd_a_new])\<rparr>"



section \<open>Properties\<close>

subsection \<open>Flag extraction and removal\<close>

lemma find_upt_first:
  assumes "i < n" and "P i" and "\<forall>j<i. \<not> P j"
  shows "find P [0 ..< n] = Some i"
  using assms by (auto simp: find_Some_iff intro!: exI[of _ i])

lemma find_flag_at_append:
  assumes "\<forall>x\<in>set pre. \<not> flag_token flag x" and "flag_token flag tok"
  shows "find (flag_at (pre @ tok # nxt # post) flag)
           [0 ..< length (pre @ tok # nxt # post) - 1] = Some (length pre)"
proof (rule find_upt_first)
  show "length pre < length (pre @ tok # nxt # post) - 1" by simp
  show "flag_at (pre @ tok # nxt # post) flag (length pre)"
    using assms(2) by (simp add: flag_at_def)
  show "\<forall>j<length pre. \<not> flag_at (pre @ tok # nxt # post) flag j"
    using assms(1) by (simp add: flag_at_def nth_append)
qed

lemma remove_flag_and_value_append:
  assumes "\<forall>x\<in>set pre. \<not> flag_token flag x" and "flag_token flag tok"
  shows "remove_flag_and_value (pre @ tok # nxt # post) flag = Some (pre @ post)"
  unfolding remove_flag_and_value_def find_flag_at_append[OF assms] by simp

lemma get_flag_value_append:
  assumes "\<forall>x\<in>set pre. \<not> flag_token flag x" and "flag_token flag tok"
  shows "get_flag_value (pre @ tok # nxt # post) flag =
           Some (if tok = flag then nxt else drop 2 tok)"
  unfolding get_flag_value_def find_flag_at_append[OF assms] by (simp add: nth_append)

lemma get_flag_value_None_iff:
  "get_flag_value argv flag = None \<longleftrightarrow>
     (\<forall>i < length argv - 1. \<not> flag_token flag (argv ! i))"
proof -
  have "get_flag_value argv flag = None \<longleftrightarrow>
          find (flag_at argv flag) [0 ..< length argv - 1] = None"
    by (simp add: get_flag_value_def split: option.splits)
  also have "\<dots> \<longleftrightarrow> (\<forall>i < length argv - 1. \<not> flag_token flag (argv ! i))"
    by (auto simp: find_None_iff flag_at_def)
  finally show ?thesis .
qed

lemma flag_token_concat: "flag_token ''-o'' (''-o'' @ path)"
  by (simp add: flag_token_def startswith_def)

text \<open>
  Claim C10. Let the first argument that the loop of \<open>remove_flag_and_value\<close> recognises as
  the flag stand at a position before the last one (no argument of \<open>pre\<close> is recognised).
  If that argument is the concatenated token \<open>-o<path>\<close>, the call with flag \<open>-o\<close> removes two
  tokens, the concatenated token and the argument after it, although that argument is not
  the value of the flag (\<open>get_flag_value\<close> reads the value \<open>path\<close> out of the token itself).
  If it is the flag in separated form, the flag token and its value are removed. In both
  cases all other arguments stay, in their order.
\<close>

theorem remove_flag_and_value_two_tokens:
  assumes "\<forall>x\<in>set pre. \<not> flag_token flag x"
  shows "(flag = ''-o'' \<and> path \<noteq> [] \<longrightarrow>
            remove_flag_and_value (pre @ (flag @ path) # nxt # post) flag = Some (pre @ post) \<and>
            get_flag_value (pre @ (flag @ path) # nxt # post) flag = Some path) \<and>
         remove_flag_and_value (pre @ flag # val # post) flag = Some (pre @ post)"
proof (intro conjI impI)
  assume c: "flag = ''-o'' \<and> path \<noteq> []"
  then have tok: "flag_token flag (flag @ path)"
    using flag_token_concat[of path] by simp
  show "remove_flag_and_value (pre @ (flag @ path) # nxt # post) flag = Some (pre @ post)"
    by (rule remove_flag_and_value_append[OF assms tok])
  have "get_flag_value (pre @ (flag @ path) # nxt # post) flag =
          Some (if flag @ path = flag then nxt else drop 2 (flag @ path))"
    by (rule get_flag_value_append[OF assms tok])
  with c show "get_flag_value (pre @ (flag @ path) # nxt # post) flag = Some path"
    by simp
next
  have "flag_token flag flag"
    by (simp add: flag_token_def)
  then show "remove_flag_and_value (pre @ flag # val # post) flag = Some (pre @ post)"
    by (rule remove_flag_and_value_append[OF assms])
qed

theorem remove_flag_and_value_two_tokens_witness:
  "\<not> flag_token ''-o'' ''clang'' \<and> \<not> flag_token ''-o'' ''a.c'' \<and>
   remove_flag_and_value [''clang'', ''a.c'', ''-oprog'', ''b.o'', ''-lm''] ''-o''
     = Some [''clang'', ''a.c'', ''-lm''] \<and>
   get_flag_value [''clang'', ''a.c'', ''-oprog'', ''b.o'', ''-lm''] ''-o'' = Some ''prog'' \<and>
   remove_flag_and_value [''clang'', ''a.c'', ''-o'', ''prog'', ''-lm''] ''-o''
     = Some [''clang'', ''a.c'', ''-lm'']"
proof -
  have pre: "\<forall>x\<in>set [''clang'', ''a.c'']. \<not> flag_token ''-o'' x"
    by (simp add: flag_token_def startswith_def)
  show ?thesis
    using pre remove_flag_and_value_two_tokens
            [OF pre, of "''prog''" "''b.o''" "[''-lm'']" "''prog''"]
    by simp
qed

subsection \<open>Dependency file parser\<close>

lemma collect_deps_eq:
  "collect_deps realpath ignored_deps lines deps =
     deps @ filter (\<lambda>dep. \<not> system_dep dep \<and> dep \<notin> ignored_deps)
              (map (\<lambda>line. realpath (strip_continuation line))
                 (takeWhile (\<lambda>line. line \<noteq> []) lines))"
  by (induction lines arbitrary: deps) (auto simp: Let_def)

text \<open>
  Claim C4. For a dependency file whose first line passes the header check against the
  canonicalized output path, \<open>parse_dependency_file\<close> returns exactly the lines after the
  header up to the first blank line, each with its trailing continuation marker removed and
  then canonicalized, without the paths that start with one of the fixed system prefixes
  and without the paths in the ignored-dependency set. \<open>filter\<close>, \<open>map\<close> and \<open>takeWhile\<close>
  keep the order of the lines and keep repeated paths.
\<close>

theorem parse_dependency_file_well_formed:
  assumes "endswith (output_file_line (realpath output_file)) (strip first)"
  shows "parse_dependency_file realpath (first # rest) output_file ignored_deps =
           Inr (filter (\<lambda>dep. \<not> system_dep dep \<and> dep \<notin> ignored_deps)
                  (map (\<lambda>line. realpath (strip_continuation line))
                     (takeWhile (\<lambda>line. line \<noteq> []) (map strip rest))))"
  using assms by (simp add: parse_dependency_file_def collect_deps_eq)

theorem parse_dependency_file_well_formed_witness:
  "endswith (output_file_line (realpath_plain ''/out/foo''))
     (strip (''/out/foo: '' @ [backslash, newline])) \<and>
   parse_dependency_file realpath_plain
     [''/out/foo: '' @ [backslash, newline],
      ''  /src/a.o '' @ [backslash, newline],
      ''  /usr/lib/libc.a '' @ [backslash, newline],
      ''  /src/a.o '' @ [backslash, newline],
      ''  /src/skip.o '' @ [backslash, newline],
      ''  /src/b.a'' @ [newline],
      [newline],
      ''/src/late.o'' @ [newline]]
     ''/out/foo'' {''/src/skip.o''} = Inr [''/src/a.o'', ''/src/a.o'', ''/src/b.a'']"
proof -
  let ?rest = "[''  /src/a.o '' @ [backslash, newline],
                ''  /usr/lib/libc.a '' @ [backslash, newline],
                ''  /src/a.o '' @ [backslash, newline],
                ''  /src/skip.o '' @ [backslash, newline],
                ''  /src/b.a'' @ [newline],
                [newline],
                ''/src/late.o'' @ [newline]]"
  have h: "endswith (output_file_line (realpath_plain ''/out/foo''))
             (strip (''/out/foo: '' @ [backslash, newline]))"
    by code_simp
  have r: "filter (\<lambda>dep. \<not> system_dep dep \<and> dep \<notin> {''/src/skip.o''})
             (map (\<lambda>line. realpath_plain (strip_continuation line))
                (takeWhile (\<lambda>line. line \<noteq> []) (map strip ?rest)))
           = [''/src/a.o'', ''/src/a.o'', ''/src/b.a'']"
    by code_simp
  have p: "parse_dependency_file realpath_plain
             ((''/out/foo: '' @ [backslash, newline]) # ?rest)
             ''/out/foo'' {''/src/skip.o''} = Inr [''/src/a.o'', ''/src/a.o'', ''/src/b.a'']"
    using parse_dependency_file_well_formed
            [where realpath = realpath_plain and output_file = "''/out/foo''"
               and ignored_deps = "{''/src/skip.o''}" and rest = ?rest, OF h]
    unfolding r .
  from h p show ?thesis by (rule conjI)
qed

text \<open>
  Claim C2, as amended. The header check of the code is a suffix test: parsing raises
  \<open>AssertionError\<close> whenever the stripped first line is not a suffix of
  \<open><canonicalized output path>: \\<close>, and \<open>IndexError\<close> on a file without lines.
\<close>

theorem parse_dependency_file_header_check:
  "parse_dependency_file realpath [] output_file ignored_deps = Inl IndexError \<and>
   (\<not> endswith (output_file_line (realpath output_file)) (strip first) \<longrightarrow>
      parse_dependency_file realpath (first # rest) output_file ignored_deps = Inl AssertionError)"
  by (simp add: parse_dependency_file_def)

theorem parse_dependency_file_header_check_witness:
  "\<not> endswith (output_file_line (realpath_plain ''/out/foo''))
       (strip (''/out/bar: '' @ [backslash, newline])) \<and>
   parse_dependency_file realpath_plain
     [''/out/bar: '' @ [backslash, newline], ''  /src/a.o'' @ [newline]] ''/out/foo'' {}
     = Inl AssertionError"
proof -
  have h: "\<not> endswith (output_file_line (realpath_plain ''/out/foo''))
             (strip (''/out/bar: '' @ [backslash, newline]))"
    by code_simp
  have "parse_dependency_file realpath_plain
     [''/out/bar: '' @ [backslash, newline], ''  /src/a.o'' @ [newline]] ''/out/foo'' {}
     = Inl AssertionError"
    using parse_dependency_file_header_check
            [where realpath = realpath_plain and output_file = "''/out/foo''"
               and first = "''/out/bar: '' @ [backslash, newline]"] h
    by blast
  with h show ?thesis by (rule conjI)
qed

text \<open>
  Claim C2 as stated fails: a first line that is not the header of the output path, but a
  proper suffix of it, is accepted. For the output \<open>/out/foo\<close> the first line \<open>oo: \\<close>
  passes the check and the dependencies after it are returned.
\<close>

theorem parse_dependency_file_accepts_suffix:
  "strip (''oo: '' @ [backslash, newline]) \<noteq> output_file_line (realpath_plain ''/out/foo'') \<and>
   parse_dependency_file realpath_plain
     [''oo: '' @ [backslash, newline], ''  /src/a.o'' @ [newline]] ''/out/foo'' {}
     = Inr [''/src/a.o'']"
  by code_simp

subsection \<open>Command matcher\<close>

lemma scan_cdb_obj_map_of:
  "map_of (scan_cdb_obj realpath dep cdb commands) =
     (if obj_matches realpath cdb dep = [] then map_of commands
      else (map_of commands)(dep \<mapsto> last (obj_matches realpath cdb dep)))"
proof (induction cdb arbitrary: commands)
  case Nil
  then show ?case by (simp add: obj_matches_def)
next
  case (Cons command cdb)
  show ?case
  proof (cases "command_path realpath command = dep")
    case True
    then show ?thesis
      using Cons.IH[of "AList.update dep command commands"]
      by (auto simp: obj_matches_def update_conv' fun_eq_iff)
  next
    case False
    then show ?thesis
      using Cons.IH[of commands] by (simp add: obj_matches_def)
  qed
qed

lemma scan_cdb_archive_map_of:
  "map_of (scan_cdb_archive dep cdb commands) =
     (if archive_matches cdb dep = [] then map_of commands
      else (map_of commands)(dep \<mapsto> last (archive_matches cdb dep)))"
proof (induction cdb arbitrary: commands)
  case Nil
  then show ?case by (simp add: archive_matches_def)
next
  case (Cons command cdb)
  show ?case
  proof (cases "basename (output command) = dep")
    case True
    then show ?thesis
      using Cons.IH[of "AList.update dep command commands"]
      by (auto simp: archive_matches_def update_conv' fun_eq_iff)
  next
    case False
    then show ?thesis
      using Cons.IH[of commands] by (simp add: archive_matches_def)
  qed
qed

lemma match_obj_deps_map_of:
  "map_of (fst (match_obj_deps realpath e cdb deps (commands, out))) k =
     (if k \<in> realpath ` (set deps - {e}) \<and> obj_matches realpath cdb k \<noteq> []
      then Some (last (obj_matches realpath cdb k)) else map_of commands k)"
proof (induction deps arbitrary: commands out)
  case Nil
  then show ?case by simp
next
  case (Cons dep deps)
  show ?case
  proof (cases "dep = e")
    case True
    then show ?thesis using Cons.IH by (simp add: Let_def)
  next
    case False
    then show ?thesis
      using Cons.IH by (auto simp: Let_def scan_cdb_obj_map_of)
  qed
qed

lemma match_archive_deps_map_of:
  "map_of (fst (match_archive_deps cdb deps (commands, out))) k =
     (if k \<in> set deps \<and> archive_matches cdb k \<noteq> []
      then Some (last (archive_matches cdb k)) else map_of commands k)"
proof (induction deps arbitrary: commands out)
  case Nil
  then show ?case by simp
next
  case (Cons dep deps)
  then show ?case
    by (auto simp: Let_def scan_cdb_archive_map_of)
qed

lemma match_commands_map_of:
  "map_of (fst (match_commands realpath e cdb obj_deps archive_deps)) k =
     (if k \<in> set archive_deps \<and> archive_matches cdb k \<noteq> []
      then Some (last (archive_matches cdb k))
      else if k \<in> realpath ` (set obj_deps - {e}) \<and> obj_matches realpath cdb k \<noteq> []
      then Some (last (obj_matches realpath cdb k))
      else None)"
proof -
  obtain c lg where st: "match_obj_deps realpath e cdb obj_deps ([], []) = (c, lg)"
    by (cases "match_obj_deps realpath e cdb obj_deps ([], [])")
  have "map_of c k = (if k \<in> realpath ` (set obj_deps - {e}) \<and> obj_matches realpath cdb k \<noteq> []
      then Some (last (obj_matches realpath cdb k)) else None)"
    using match_obj_deps_map_of[of realpath e cdb obj_deps "[]" "[]" k] st by simp
  then show ?thesis
    unfolding match_commands_def st
    by (simp add: match_archive_deps_map_of)
qed





text \<open>
  Claim C1, as amended. The inner loops have no \<open>break\<close>: every command that canonicalizes to
  the dependency overwrites the entry of the dependency, so the last such command in CDB
  order stays bound. This holds for an object-file dependency (other than the fuzzing
  engine, and whose canonical path is not also the name of an archive member) and for an
  archive member, matched by basename.
\<close>

theorem match_commands_last_match:
  "(dep \<in> set obj_deps \<and> dep \<noteq> fuzzer_engine \<and>
      obj_matches realpath cdb (realpath dep) \<noteq> [] \<and> realpath dep \<notin> set archive_deps \<longrightarrow>
      map_of (fst (match_commands realpath fuzzer_engine cdb obj_deps archive_deps)) (realpath dep)
        = Some (last (obj_matches realpath cdb (realpath dep)))) \<and>
   (archive_dep \<in> set archive_deps \<and> archive_matches cdb archive_dep \<noteq> [] \<longrightarrow>
      map_of (fst (match_commands realpath fuzzer_engine cdb obj_deps archive_deps)) archive_dep
        = Some (last (archive_matches cdb archive_dep)))"
  by (auto simp: match_commands_map_of)

theorem match_commands_last_match_witness:
  "''/src/a.o'' \<in> set [''/src/a.o'', ''/src/c.o''] \<and> ''/src/a.o'' \<noteq> ''/work/engine.a'' \<and>
   obj_matches realpath_plain [cmd_a_old, cmd_a_new, cmd_b] (realpath_plain ''/src/a.o'') \<noteq> [] \<and>
   realpath_plain ''/src/a.o'' \<notin> set [''b.o'', ''z.o''] \<and>
   map_of (fst (match_commands realpath_plain ''/work/engine.a'' [cmd_a_old, cmd_a_new, cmd_b]
                  [''/src/a.o'', ''/src/c.o''] [''b.o'', ''z.o''])) (realpath_plain ''/src/a.o'')
     = Some cmd_a_new \<and>
   ''b.o'' \<in> set [''b.o'', ''z.o''] \<and>
   archive_matches [cmd_a_old, cmd_a_new, cmd_b] ''b.o'' \<noteq> [] \<and>
   map_of (fst (match_commands realpath_plain ''/work/engine.a'' [cmd_a_old, cmd_a_new, cmd_b]
                  [''/src/a.o'', ''/src/c.o''] [''b.o'', ''z.o''])) ''b.o''
     = Some cmd_b"
proof -
  let ?cdb = "[cmd_a_old, cmd_a_new, cmd_b]"
  have h1: "''/src/a.o'' \<in> set [''/src/a.o'', ''/src/c.o'']" by simp
  have h2: "''/src/a.o'' \<noteq> ''/work/engine.a''" by simp
  have h3: "obj_matches realpath_plain ?cdb (realpath_plain ''/src/a.o'') \<noteq> []" by code_simp
  have h4: "realpath_plain ''/src/a.o'' \<notin> set [''b.o'', ''z.o'']" by code_simp
  have h5: "''b.o'' \<in> set [''b.o'', ''z.o'']" by simp
  have h6: "archive_matches ?cdb ''b.o'' \<noteq> []" by code_simp
  have l1: "last (obj_matches realpath_plain ?cdb (realpath_plain ''/src/a.o'')) = cmd_a_new"
    by code_simp
  have l2: "last (archive_matches ?cdb ''b.o'') = cmd_b"
    by code_simp
  note T = match_commands_last_match
             [where realpath = realpath_plain and cdb = ?cdb and dep = "''/src/a.o''"
                and fuzzer_engine = "''/work/engine.a''"
                and obj_deps = "[''/src/a.o'', ''/src/c.o'']"
                and archive_deps = "[''b.o'', ''z.o'']" and archive_dep = "''b.o''"]
  have c1: "map_of (fst (match_commands realpath_plain ''/work/engine.a'' ?cdb
                  [''/src/a.o'', ''/src/c.o''] [''b.o'', ''z.o''])) (realpath_plain ''/src/a.o'')
     = Some cmd_a_new"
    using T h1 h2 h3 h4 unfolding l1 by blast
  have c2: "map_of (fst (match_commands realpath_plain ''/work/engine.a'' ?cdb
                  [''/src/a.o'', ''/src/c.o''] [''b.o'', ''z.o''])) ''b.o'' = Some cmd_b"
    using T h5 h6 unfolding l2 by blast
  from h1 h2 h3 h4 c1 h5 h6 c2 show ?thesis by blast
qed

text \<open>
  Claim C1 as stated fails: of two commands for \<open>/src/a.o\<close>, the object file \<open>/src/a.o\<close> and
  the archive member \<open>a.o\<close> are both bound to the second command, not to the first.
\<close>

theorem match_commands_first_not_bound:
  "command_path realpath_plain
     \<lparr>directory = ''/src'', output = ''a.o'', arguments = [''clang'', ''-c'', ''old.c'']\<rparr> = ''/src/a.o'' \<and>
   command_path realpath_plain
     \<lparr>directory = ''/src'', output = ''a.o'', arguments = [''clang'', ''-c'', ''new.c'']\<rparr> = ''/src/a.o'' \<and>
   map_of (fst (match_commands realpath_plain ''/work/engine.a''
      [\<lparr>directory = ''/src'', output = ''a.o'', arguments = [''clang'', ''-c'', ''old.c'']\<rparr>,
       \<lparr>directory = ''/src'', output = ''a.o'', arguments = [''clang'', ''-c'', ''new.c'']\<rparr>]
      [''/src/a.o''] [''a.o''])) ''/src/a.o''
     = Some \<lparr>directory = ''/src'', output = ''a.o'', arguments = [''clang'', ''-c'', ''new.c'']\<rparr> \<and>
   map_of (fst (match_commands realpath_plain ''/work/engine.a''
      [\<lparr>directory = ''/src'', output = ''a.o'', arguments = [''clang'', ''-c'', ''old.c'']\<rparr>,
       \<lparr>directory = ''/src'', output = ''a.o'', arguments = [''clang'', ''-c'', ''new.c'']\<rparr>]
      [''/src/a.o''] [''a.o''])) ''a.o''
     = Some \<lparr>directory = ''/src'', output = ''a.o'', arguments = [''clang'', ''-c'', ''new.c'']\<rparr>"
  by code_simp











subsection \<open>Fragment store reader\<close>

lemma collect_fragments_torn:
  assumes "(file, entry) \<in> set files" and "fragment_file file"
    and "\<not> endswith (entry_data entry) sentinel"
  shows "collect_fragments files contents = Inl AssertionError"
  using assms
proof (induction files arbitrary: contents)
  case Nil
  then show ?case by simp
next
  case (Cons fe files)
  obtain f en where fe: "fe = (f, en)" by (cases fe)
  show ?case
  proof (cases "fe = (file, entry)")
    case True
    with Cons.prems fe show ?thesis
      by (simp add: fragment_file_def Let_def)
  next
    case False
    with Cons.prems have "(file, entry) \<in> set files" by simp
    then have "\<And>c. collect_fragments files c = Inl AssertionError"
      using Cons.IH Cons.prems(2,3) by blast
    then show ?thesis
      unfolding fe by (simp add: Let_def)
  qed
qed

lemma set_files_by_creation_time:
  "set (files_by_creation_time folder_path listing) =
     (\<lambda>entry. (path_join folder_path (entry_name entry), entry)) ` {entry \<in> set listing. entry_isfile entry}"
  by (simp add: files_by_creation_time_def)

text \<open>
  Claim C5. When the fragment directory holds a regular file that the reader takes for a
  fragment (its path ends in \<open>.json\<close> and not in \<open>_linker_commands.json\<close>) and whose content
  does not end with the sentinel, \<open>read_cdb_fragments\<close> raises \<open>AssertionError\<close>, whatever
  the other files are and wherever the file stands in creation order: no database without
  the record is returned.
\<close>

theorem read_cdb_fragments_torn:
  assumes "entry \<in> set listing" and "entry_isfile entry"
    and "fragment_file (path_join cdb_path (entry_name entry))"
    and "\<not> endswith (entry_data entry) sentinel"
  shows "read_cdb_fragments loads cdb_path listing = Inl AssertionError"
proof -
  have "(path_join cdb_path (entry_name entry), entry) \<in> set (files_by_creation_time cdb_path listing)"
    using assms(1,2) by (auto simp: set_files_by_creation_time)
  then have "collect_fragments (files_by_creation_time cdb_path listing) [] = Inl AssertionError"
    using assms(3,4) by (rule collect_fragments_torn)
  then show ?thesis by (simp add: read_cdb_fragments_def)
qed

theorem read_cdb_fragments_torn_witness:
  "frag_torn \<in> set [frag_a, frag_torn, old_record, frag_b] \<and> entry_isfile frag_torn \<and>
   fragment_file (path_join ''/cdb'' (entry_name frag_torn)) \<and>
   \<not> endswith (entry_data frag_torn) sentinel \<and>
   read_cdb_fragments (Inr :: string \<Rightarrow> exn + string) ''/cdb''
     [frag_a, frag_torn, old_record, frag_b] = Inl AssertionError"
proof -
  have h1: "frag_torn \<in> set [frag_a, frag_torn, old_record, frag_b]" by simp
  have h2: "entry_isfile frag_torn" by code_simp
  have h3: "fragment_file (path_join ''/cdb'' (entry_name frag_torn))" by code_simp
  have h4: "\<not> endswith (entry_data frag_torn) sentinel" by code_simp
  from h1 h2 h3 h4 read_cdb_fragments_torn [OF h1 h2 h3 h4, of Inr]
  show ?thesis by blast
qed


subsection \<open>Link interception dispatcher\<close>

















lemma main_missing_flag:
  assumes "w_getenv w = Some fuzzer_engine" and "fuzzer_engine \<noteq> []"
    and "fuzzer_engine \<in> set argv \<or> ''-lFuzzingEngine'' \<in> set argv"
    and "get_flag_value argv ''-o'' = None \<or>
         get_flag_value argv ''-gen-cdb-fragment-path'' = None"
  shows "main w argv = Failed (Raised AssertionError)"
  using assms by (auto simp: main_def capture_def split: option.splits)



text \<open>
  Claim C9. \<open>get_flag_value\<close> returns the value of the first argument that it recognises
  as the flag: the next argument for the separated form, and for \<open>-o\<close> what follows \<open>-o\<close>
  in a concatenated token. It finds nothing exactly when no argument but the last is
  recognised, so the last position is not searched. When the value of \<open>-o\<close> or of
  \<open>-gen-cdb-fragment-path\<close> is not found, an invocation that links the fuzzing engine
  fails with \<open>AssertionError\<close>.
\<close>

theorem get_flag_value_forms:
  "((\<forall>x\<in>set pre. \<not> flag_token flag x) \<longrightarrow>
      get_flag_value (pre @ flag # val # post) flag = Some val \<and>
      (flag = ''-o'' \<and> path \<noteq> [] \<longrightarrow>
         get_flag_value (pre @ (flag @ path) # nxt # post) flag = Some path)) \<and>
   (get_flag_value argv flag = None \<longleftrightarrow>
      (\<forall>i < length argv - 1. \<not> flag_token flag (argv ! i))) \<and>
   (w_getenv w = Some fuzzer_engine \<and> fuzzer_engine \<noteq> [] \<and>
    (fuzzer_engine \<in> set argv \<or> ''-lFuzzingEngine'' \<in> set argv) \<and>
    (get_flag_value argv ''-o'' = None \<or>
     get_flag_value argv ''-gen-cdb-fragment-path'' = None) \<longrightarrow>
      main w argv = Failed (Raised AssertionError))"
proof (intro conjI impI)
  assume pre: "\<forall>x\<in>set pre. \<not> flag_token flag x"
  have "flag_token flag flag" by (simp add: flag_token_def)
  from get_flag_value_append[OF pre this]
  show "get_flag_value (pre @ flag # val # post) flag = Some val" by simp
next
  assume pre: "\<forall>x\<in>set pre. \<not> flag_token flag x" and c: "flag = ''-o'' \<and> path \<noteq> []"
  then have tok: "flag_token flag (flag @ path)"
    using flag_token_concat[of path] by simp
  from get_flag_value_append[OF pre tok] c
  show "get_flag_value (pre @ (flag @ path) # nxt # post) flag = Some path" by simp
next
  show "get_flag_value argv flag = None \<longleftrightarrow>
      (\<forall>i < length argv - 1. \<not> flag_token flag (argv ! i))"
    by (rule get_flag_value_None_iff)
next
  assume "w_getenv w = Some fuzzer_engine \<and> fuzzer_engine \<noteq> [] \<and>
    (fuzzer_engine \<in> set argv \<or> ''-lFuzzingEngine'' \<in> set argv) \<and>
    (get_flag_value argv ''-o'' = None \<or>
     get_flag_value argv ''-gen-cdb-fragment-path'' = None)"
  then show "main w argv = Failed (Raised AssertionError)"
    using main_missing_flag by blast
qed

theorem get_flag_value_forms_witness:
  "\<not> flag_token ''-o'' ''clang'' \<and> \<not> flag_token ''-o'' ''a.o'' \<and>
   get_flag_value [''clang'', ''a.o'', ''-o'', ''/out/prog'', ''-lm''] ''-o'' = Some ''/out/prog'' \<and>
   get_flag_value [''clang'', ''a.o'', ''-o/out/prog'', ''-lm''] ''-o'' = Some ''/out/prog'' \<and>
   get_flag_value [''clang'', ''a.o'', ''-o/out/prog''] ''-o'' = None \<and>
   w_getenv world_ok = Some ''/work/libFuzzingEngine.a'' \<and>
   ''/work/libFuzzingEngine.a'' \<in> set [''clang'', ''/work/libFuzzingEngine.a'', ''-o'', ''/out/prog''] \<and>
   get_flag_value [''clang'', ''/work/libFuzzingEngine.a'', ''-o'', ''/out/prog'']
     ''-gen-cdb-fragment-path'' = None \<and>
   main world_ok [''clang'', ''/work/libFuzzingEngine.a'', ''-o'', ''/out/prog'']
     = Failed (Raised AssertionError)"
proof -
  let ?e = "''/work/libFuzzingEngine.a''"
  let ?argv = "[''clang'', ?e, ''-o'', ''/out/prog'']"
  have p1: "\<not> flag_token ''-o'' ''clang''" and p2: "\<not> flag_token ''-o'' ''a.o''"
    by (simp_all add: flag_token_def startswith_def)
  then have pre: "\<forall>x\<in>set [''clang'', ''a.o'']. \<not> flag_token ''-o'' x" by simp
  have last: "\<forall>i < length [''clang'', ''a.o'', ''-o/out/prog''] - 1.
                \<not> flag_token ''-o'' ([''clang'', ''a.o'', ''-o/out/prog''] ! i)"
    using p1 p2 by (simp add: less_Suc_eq)
  have h1: "w_getenv world_ok = Some ?e" by (simp add: world_ok_def)
  have h3: "?e \<in> set ?argv" by simp
  have h4: "get_flag_value ?argv ''-gen-cdb-fragment-path'' = None" by code_simp
  note T1 = get_flag_value_forms
              [where pre = "[''clang'', ''a.o'']" and flag = "''-o''" and val = "''/out/prog''"
                 and post = "[''-lm'']" and path = "''/out/prog''" and nxt = "''-lm''"
                 and argv = "[''clang'', ''a.o'', ''-o/out/prog'']"]
  note T2 = get_flag_value_forms
              [where w = world_ok and fuzzer_engine = ?e and argv = ?argv]
  have a: "get_flag_value [''clang'', ''a.o'', ''-o'', ''/out/prog'', ''-lm''] ''-o'' = Some ''/out/prog''"
    using T1 pre by simp
  note T1b = get_flag_value_forms
              [where pre = "[''clang'', ''a.o'']" and flag = "''-o''" and post = "[]"
                 and path = "''/out/prog''" and nxt = "''-lm''"]
  have b: "get_flag_value [''clang'', ''a.o'', ''-o/out/prog'', ''-lm''] ''-o'' = Some ''/out/prog''"
    using T1b pre by simp
  have c: "get_flag_value [''clang'', ''a.o'', ''-o/out/prog''] ''-o'' = None"
    using T1 last by blast
  have d: "main world_ok ?argv = Failed (Raised AssertionError)"
    using T2 h1 h3 h4 by blast
  from p1 p2 a b c h1 h3 h4 d show ?thesis by blast
qed

subsection \<open>The JSON decoder\<close>

lemma skip_ws_Cons_length: "skip_ws s = c # r \<Longrightarrow> length r < length s"
proof -
  assume a: "skip_ws s = c # r"
  have "length (skip_ws s) \<le> length s"
    by (simp add: skip_ws_def length_dropWhile_le)
  with a show ?thesis by simp
qed



lemma lex_string_length: "lex_string s = Some (k, r) \<Longrightarrow> length r < length s"
proof (induction s arbitrary: k r rule: lex_string.induct)
  case 1
  then show ?case by simp
next
  case (2 c cs)
  show ?case
  proof (cases "c = CHR 0x22")
    case True
    with "2.prems" show ?thesis by simp
  next
    case nq: False
    show ?thesis
    proof (cases "c = CHR 0x5C")
      case True
      with nq "2.prems" obtain n content where
        n: "escape_len cs = Some n" and rec: "lex_string (drop n cs) = Some (content, r)"
        by (auto split: option.splits)
      from "2.IH"(1)[OF nq True n rec] have "length r < length (drop n cs)" .
      then show ?thesis by simp
    next
      case nb: False
      with nq "2.prems" obtain content where
        ctl: "\<not> (of_char c :: nat) < 32" and rec: "lex_string cs = Some (content, r)"
        by (auto split: option.splits if_splits)
      from "2.IH"(2)[OF nq nb ctl rec] show ?thesis by simp
    qed
  qed
qed




lemma lex_digits_length: "lex_digits s = Some (ds, r) \<Longrightarrow> length r < length s"
proof -
  assume a: "lex_digits s = Some (ds, r)"
  then have "takeWhile is_digit s \<noteq> []" and r: "r = dropWhile is_digit s"
    by (auto simp: lex_digits_def split: if_splits)
  moreover have "length (takeWhile is_digit s) + length (dropWhile is_digit s) = length s"
    by (metis length_append takeWhile_dropWhile_id)
  ultimately show ?thesis by (cases "takeWhile is_digit s") auto
qed


lemma lex_unsigned_hd:
  "lex_unsigned s = Some (i, r) \<Longrightarrow> s \<noteq> [] \<and> is_digit (hd s) \<and> length r < length s"
proof -
  assume a: "lex_unsigned s = Some (i, r)"
  then obtain d s' where s: "s = d # s'" by (cases s) (auto simp: lex_unsigned_def)
  have le: "length (dropWhile is_digit s') \<le> length s'" by (rule length_dropWhile_le)
  have zero: "is_digit (CHR ''0'')" by (simp add: is_digit_def)
  show ?thesis
  proof (cases "d = CHR ''0''")
    case True
    with a s zero show ?thesis by (simp add: lex_unsigned_def)
  next
    case False
    with a s le show ?thesis
      by (auto simp: lex_unsigned_def le_imp_less_Suc split: if_splits)
  qed
qed


lemma lex_int_hd:
  "lex_int s = Some (i, r) \<Longrightarrow>
     s \<noteq> [] \<and> (hd s = CHR ''-'' \<or> is_digit (hd s)) \<and> length r < length s"
proof -
  assume a: "lex_int s = Some (i, r)"
  then obtain c s' where s: "s = c # s'" by (cases s) (auto simp: lex_int_def)
  show ?thesis
  proof (cases "c = CHR ''-''")
    case True
    with a s obtain ds where u: "lex_unsigned s' = Some (ds, r)"
      by (auto simp: lex_int_def split: option.splits)
    from lex_unsigned_hd[OF u] show ?thesis using s True by simp
  next
    case False
    with a s have u: "lex_unsigned (c # s') = Some (i, r)"
      by (simp add: lex_int_def)
    from lex_unsigned_hd[OF u] show ?thesis using s by simp
  qed
qed


lemma lex_frac_length: "lex_frac s = (f, r) \<Longrightarrow> length r \<le> length s"
proof (cases s)
  case Nil
  assume "lex_frac s = (f, r)"
  with Nil show ?thesis by (simp add: lex_frac_def)
next
  case (Cons c s')
  assume a: "lex_frac s = (f, r)"
  show ?thesis
  proof (cases "c = CHR ''.''")
    case True
    show ?thesis
    proof (cases "lex_digits s'")
      case None
      with a Cons True show ?thesis by (simp add: lex_frac_def)
    next
      case (Some p)
      with a Cons True obtain ds where d: "lex_digits s' = Some (ds, r)"
        by (cases p) (auto simp: lex_frac_def)
      from lex_digits_length[OF d] show ?thesis using Cons by simp
    qed
  next
    case False
    with a Cons show ?thesis by (auto simp: lex_frac_def)
  qed
qed

lemma lex_sign_length: "lex_sign s = (sg, r) \<Longrightarrow> length r \<le> length s"
  by (cases s) (auto simp: lex_sign_def split: if_splits)


lemma lex_exp_length: "lex_exp s = (e, r) \<Longrightarrow> length r \<le> length s"
proof (cases s)
  case Nil
  assume "lex_exp s = (e, r)"
  with Nil show ?thesis by (simp add: lex_exp_def)
next
  case (Cons c s')
  assume a: "lex_exp s = (e, r)"
  show ?thesis
  proof (cases "c = CHR ''e'' \<or> c = CHR ''E''")
    case False
    with a Cons show ?thesis by (auto simp: lex_exp_def)
  next
    case True
    obtain sg r1 where sg: "lex_sign s' = (sg, r1)" by (cases "lex_sign s'")
    show ?thesis
    proof (cases "lex_digits r1")
      case None
      with a Cons True sg show ?thesis by (auto simp: lex_exp_def)
    next
      case (Some p)
      with a Cons True sg have d: "lex_digits r1 = Some (fst p, r)"
        by (cases p) (auto simp: lex_exp_def)
      from lex_digits_length[OF d] lex_sign_length[OF sg] Cons show ?thesis by simp
    qed
  qed
qed




lemma lex_number_hd:
  assumes "lex_number s = Some (lx, r)"
  shows "s \<noteq> [] \<and> (hd s = CHR ''-'' \<or> is_digit (hd s)) \<and> length r < length s"
proof -
  from assms obtain i r1 where i: "lex_int s = Some (i, r1)"
    by (cases "lex_int s") (auto simp: lex_number_def)
  obtain f r2 where f: "lex_frac r1 = (f, r2)" by (cases "lex_frac r1")
  obtain e r3 where e: "lex_exp r2 = (e, r3)" by (cases "lex_exp r2")
  from assms i f e have r3: "r3 = r" by (simp add: lex_number_def)
  from lex_int_hd[OF i] lex_frac_length[OF f] lex_exp_length[OF e] r3
  show ?thesis by simp
qed

lemma startswith_length: "startswith s p \<Longrightarrow> length p \<le> length s"
  by (metis startswith_def length_take min.cobounded1)








lemma lex_literal_length:
  assumes "lex_literal s = Some (v, r)"
  shows "length r < length s"
proof -
  have lit: "length (drop (length p) s) < length s" if "startswith s p" and "p \<noteq> []" for p
  proof -
    from that(2) have "0 < length p" by simp
    moreover from startswith_length[OF that(1)] have "length p \<le> length s" .
    ultimately have "length s - length p < length s" by arith
    then show ?thesis by simp
  qed
  show ?thesis
  proof (cases "startswith s ''null'' \<or> startswith s ''true'' \<or> startswith s ''false''")
    case True
    with assms lit[of "''null''"] lit[of "''true''"] lit[of "''false''"] show ?thesis
      by (auto simp: lex_literal_def split: if_splits)
  next
    case False
    show ?thesis
    proof (cases "lex_number s")
      case (Some p)
      with assms False have "lex_number s = Some (fst p, r)"
        by (cases p) (auto simp: lex_literal_def)
      from lex_number_hd[OF this] show ?thesis by simp
    next
      case None
      with assms False lit[of "''NaN''"] lit[of "''Infinity''"] lit[of "''-Infinity''"]
      show ?thesis
        by (auto simp: lex_literal_def split: if_splits)
    qed
  qed
qed


lemma parse_Value_unfold:
  assumes "skip_ws s = c # r0"
  shows "parse Value s =
     (if c = CHR ''['' then
        (case skip_ws r0 of
           [] \<Rightarrow> None
         | c' # r' \<Rightarrow> if c' = CHR '']'' then Some (VArray [], r') else parse Elements r0)
      else if c = CHR ''{'' then
        (case skip_ws r0 of
           [] \<Rightarrow> None
         | c' # r' \<Rightarrow> if c' = CHR ''}'' then Some (VObject [], r') else parse Members r0)
      else if c = CHR 0x22 then
        (case lex_string r0 of None \<Rightarrow> None | Some (content, r') \<Rightarrow> Some (VString content, r'))
      else lex_literal (c # r0))"
  using assms by simp

lemma parse_Value_Nil: "skip_ws s = [] \<Longrightarrow> parse Value s = None"
  by simp

lemma parse_Elements_unfold:
  assumes "parse Value s = Some (v, r)" and "skip_ws r = c # r'"
  shows "parse Elements s =
     (if c = CHR '','' then
        (if length r' < length s then
           (case parse Elements r' of
              Some (VArray vs, r'') \<Rightarrow> Some (VArray (v # vs), r'')
            | _ \<Rightarrow> None)
         else None)
      else if c = CHR '']'' then Some (VArray [v], r')
      else None)"
  using assms by simp

lemma parse_Elements_Some:
  assumes "parse Elements s = Some (w, r)"
  shows "\<exists>v r0 c r'. parse Value s = Some (v, r0) \<and> skip_ws r0 = c # r' \<and>
           ((c = CHR '']'' \<and> w = VArray [v] \<and> r = r') \<or>
            (c = CHR '','' \<and> length r' < length s \<and>
             (\<exists>vs. parse Elements r' = Some (VArray vs, r) \<and> w = VArray (v # vs))))"
proof -
  from assms obtain v r0 where v: "parse Value s = Some (v, r0)"
    by (cases "parse Value s") auto
  from assms v obtain c r' where c: "skip_ws r0 = c # r'"
    by (cases "skip_ws r0") auto
  note u = parse_Elements_unfold[OF v c]
  show ?thesis
  proof (cases "c = CHR '',''")
    case True
    with assms u have g: "length r' < length s" by (auto split: if_splits)
    with assms u True obtain p where p: "parse Elements r' = Some p"
      by (cases "parse Elements r'") auto
    obtain w' r'' where pp: "p = (w', r'')" by (cases p)
    from assms u True g p pp obtain vs where "w' = VArray vs" "w = VArray (v # vs)" "r = r''"
      by (cases w') auto
    with v c True g p pp show ?thesis by auto
  next
    case False
    with assms u have "c = CHR '']''" "w = VArray [v]" "r = r'"
      by (auto split: if_splits)
    with v c show ?thesis by auto
  qed
qed

lemma parse_Members_unfold:
  assumes "skip_ws s = CHR 0x22 # r0" and "lex_string r0 = Some (key, r1)"
    and "skip_ws r1 = CHR '':'' # r2" and "length r2 < length s"
    and "parse Value r2 = Some (v, r3)" and "skip_ws r3 = c # r4"
  shows "parse Members s =
     (if c = CHR '','' then
        (if length r4 < length s then
           (case parse Members r4 of
              Some (VObject kvs, r5) \<Rightarrow> Some (VObject ((key, v) # kvs), r5)
            | _ \<Rightarrow> None)
         else None)
      else if c = CHR ''}'' then Some (VObject [(key, v)], r4)
      else None)"
  using assms by simp

lemma parse_Members_Some:
  assumes "parse Members s = Some (w, r)"
  shows "\<exists>r0 key r1 r2 v r3 c r4.
           skip_ws s = CHR 0x22 # r0 \<and> lex_string r0 = Some (key, r1) \<and>
           skip_ws r1 = CHR '':'' # r2 \<and> length r2 < length s \<and>
           parse Value r2 = Some (v, r3) \<and> skip_ws r3 = c # r4 \<and>
           ((c = CHR ''}'' \<and> w = VObject [(key, v)] \<and> r = r4) \<or>
            (c = CHR '','' \<and> length r4 < length s \<and>
             (\<exists>kvs. parse Members r4 = Some (VObject kvs, r) \<and> w = VObject ((key, v) # kvs))))"
proof -
  from assms obtain q r0 where q: "skip_ws s = q # r0"
    by (cases "skip_ws s") auto
  with assms have q': "q = CHR 0x22" by (auto split: if_splits)
  from assms q q' obtain key r1 where k: "lex_string r0 = Some (key, r1)"
    by (cases "lex_string r0") auto
  from assms q q' k obtain c0 r2 where c0: "skip_ws r1 = c0 # r2"
    by (cases "skip_ws r1") auto
  with assms q q' k have c0': "c0 = CHR '':''" by (auto split: if_splits)
  from assms q q' k c0 c0' have g: "length r2 < length s" by (auto split: if_splits)
  from assms q q' k c0 c0' g obtain v r3 where v: "parse Value r2 = Some (v, r3)"
    by (cases "parse Value r2") auto
  from assms q q' k c0 c0' g v obtain c r4 where c: "skip_ws r3 = c # r4"
    by (cases "skip_ws r3") auto
  note u = parse_Members_unfold[OF q[unfolded q'] k c0[unfolded c0'] g v c]
  show ?thesis
  proof (cases "c = CHR '',''")
    case True
    with assms u have g4: "length r4 < length s" by (auto split: if_splits)
    with assms u True obtain p where p: "parse Members r4 = Some p"
      by (cases "parse Members r4") auto
    obtain w' r'' where pp: "p = (w', r'')" by (cases p)
    from assms u True g4 p pp obtain kvs where "w' = VObject kvs" "w = VObject ((key, v) # kvs)" "r = r''"
      by (cases w') auto
    with q q' k c0 c0' g v c True g4 p pp show ?thesis by auto
  next
    case False
    with assms u have "c = CHR ''}''" "w = VObject [(key, v)]" "r = r4"
      by (auto split: if_splits)
    with q q' k c0 c0' g v c show ?thesis by auto
  qed
qed

lemma parse_Value_Some:
  assumes "parse Value s = Some (v, r)"
  shows "\<exists>c r0. skip_ws s = c # r0 \<and>
           ((c = CHR ''['' \<and> (\<exists>c' r'. skip_ws r0 = c' # r' \<and>
               ((c' = CHR '']'' \<and> v = VArray [] \<and> r = r') \<or>
                (c' \<noteq> CHR '']'' \<and> parse Elements r0 = Some (v, r))))) \<or>
            (c = CHR ''{'' \<and> (\<exists>c' r'. skip_ws r0 = c' # r' \<and>
               ((c' = CHR ''}'' \<and> v = VObject [] \<and> r = r') \<or>
                (c' \<noteq> CHR ''}'' \<and> parse Members r0 = Some (v, r))))) \<or>
            (c = CHR 0x22 \<and> (\<exists>content. lex_string r0 = Some (content, r) \<and> v = VString content)) \<or>
            (c \<noteq> CHR ''['' \<and> c \<noteq> CHR ''{'' \<and> c \<noteq> CHR 0x22 \<and> lex_literal (c # r0) = Some (v, r)))"
proof -
  from assms obtain c r0 where c: "skip_ws s = c # r0"
    by (cases "skip_ws s") auto
  note u = parse_Value_unfold[OF c]
  show ?thesis
  proof (cases "c = CHR ''[''")
    case True
    with assms u obtain c' r' where c': "skip_ws r0 = c' # r'"
      by (cases "skip_ws r0") auto
    with assms u True c show ?thesis by (auto split: if_splits)
  next
    case nb: False
    show ?thesis
    proof (cases "c = CHR ''{''")
      case True
      with assms u nb obtain c' r' where c': "skip_ws r0 = c' # r'"
        by (cases "skip_ws r0") auto
      with assms u nb True c show ?thesis by (auto split: if_splits)
    next
      case nc: False
      show ?thesis
      proof (cases "c = CHR 0x22")
        case True
        with assms u nb nc obtain p where p: "lex_string r0 = Some p"
          by (cases "lex_string r0") auto
        with assms u nb nc True c show ?thesis by (cases p) auto
      next
        case False
        with assms u nb nc c show ?thesis by auto
      qed
    qed
  qed
qed





lemma parse_length: "parse m s = Some (v, r) \<Longrightarrow> length r < length s"
proof (induction "2 * length s + (if m = Value then 0 else 1::nat)" arbitrary: m s v r rule: less_induct)
  case less
  note IH = less.hyps
  note p = less.prems
  show ?case
  proof (cases m)
    case Value
    from parse_Value_Some[OF p[unfolded Value]] obtain c r0 where c: "skip_ws s = c # r0" and
      alt: "(c = CHR ''['' \<and> (\<exists>c' r'. skip_ws r0 = c' # r' \<and>
               ((c' = CHR '']'' \<and> v = VArray [] \<and> r = r') \<or>
                (c' \<noteq> CHR '']'' \<and> parse Elements r0 = Some (v, r))))) \<or>
            (c = CHR ''{'' \<and> (\<exists>c' r'. skip_ws r0 = c' # r' \<and>
               ((c' = CHR ''}'' \<and> v = VObject [] \<and> r = r') \<or>
                (c' \<noteq> CHR ''}'' \<and> parse Members r0 = Some (v, r))))) \<or>
            (c = CHR 0x22 \<and> (\<exists>content. lex_string r0 = Some (content, r) \<and> v = VString content)) \<or>
            (c \<noteq> CHR ''['' \<and> c \<noteq> CHR ''{'' \<and> c \<noteq> CHR 0x22 \<and> lex_literal (c # r0) = Some (v, r))"
      by blast
    from skip_ws_Cons_length[OF c] have l0: "length r0 < length s" .
    from alt consider
        (empty) c' r' where "skip_ws r0 = c' # r'" "r = r'"
      | (elems) "parse Elements r0 = Some (v, r)"
      | (membs) "parse Members r0 = Some (v, r)"
      | (str) content where "lex_string r0 = Some (content, r)"
      | (lit) "lex_literal (c # r0) = Some (v, r)"
      by blast
    then show ?thesis
    proof cases
      case empty
      from skip_ws_Cons_length[OF empty(1)] empty(2) l0 show ?thesis by simp
    next
      case elems
      have "length r < length r0"
        by (rule IH[OF _ elems]) (use l0 Value in simp)
      with l0 show ?thesis by simp
    next
      case membs
      have "length r < length r0"
        by (rule IH[OF _ membs]) (use l0 Value in simp)
      with l0 show ?thesis by simp
    next
      case str
      from lex_string_length[OF str] l0 show ?thesis by simp
    next
      case lit
      from lex_literal_length[OF lit] l0 show ?thesis by simp
    qed
  next
    case Elements
    from parse_Elements_Some[OF p[unfolded Elements]] obtain v0 r0 c r' where
      v0: "parse Value s = Some (v0, r0)" and c: "skip_ws r0 = c # r'" and
      alt: "(c = CHR '']'' \<and> v = VArray [v0] \<and> r = r') \<or>
            (c = CHR '','' \<and> length r' < length s \<and>
             (\<exists>vs. parse Elements r' = Some (VArray vs, r) \<and> v = VArray (v0 # vs)))"
      by blast
    have l0: "length r0 < length s"
      by (rule IH[OF _ v0]) (use Elements in simp)
    from skip_ws_Cons_length[OF c] have l1: "length r' < length r0" .
    from alt show ?thesis
    proof
      assume "c = CHR '']'' \<and> v = VArray [v0] \<and> r = r'"
      with l0 l1 show ?thesis by simp
    next
      assume "c = CHR '','' \<and> length r' < length s \<and>
             (\<exists>vs. parse Elements r' = Some (VArray vs, r) \<and> v = VArray (v0 # vs))"
      then obtain vs where g: "length r' < length s" and rec: "parse Elements r' = Some (VArray vs, r)"
        by blast
      have "length r < length r'"
        by (rule IH[OF _ rec]) (use g Elements in simp)
      with g show ?thesis by simp
    qed
  next
    case Members
    from parse_Members_Some[OF p[unfolded Members]] obtain r0 key r1 r2 v0 r3 c r4 where
      "skip_ws s = CHR 0x22 # r0" and "lex_string r0 = Some (key, r1)" and
      g2: "length r2 < length s" and v0: "parse Value r2 = Some (v0, r3)" and
      c: "skip_ws r3 = c # r4" and
      alt: "(c = CHR ''}'' \<and> v = VObject [(key, v0)] \<and> r = r4) \<or>
            (c = CHR '','' \<and> length r4 < length s \<and>
             (\<exists>kvs. parse Members r4 = Some (VObject kvs, r) \<and> v = VObject ((key, v0) # kvs)))"
      by blast
    have l3: "length r3 < length r2"
      by (rule IH[OF _ v0]) (use g2 Members in simp)
    from skip_ws_Cons_length[OF c] have l4: "length r4 < length r3" .
    from alt show ?thesis
    proof
      assume "c = CHR ''}'' \<and> v = VObject [(key, v0)] \<and> r = r4"
      with g2 l3 l4 show ?thesis by simp
    next
      assume "c = CHR '','' \<and> length r4 < length s \<and>
             (\<exists>kvs. parse Members r4 = Some (VObject kvs, r) \<and> v = VObject ((key, v0) # kvs))"
      then obtain kvs where g: "length r4 < length s" and rec: "parse Members r4 = Some (VObject kvs, r)"
        by blast
      have "length r < length r4"
        by (rule IH[OF _ rec]) (use g Members in simp)
      with g show ?thesis by simp
    qed
  qed
qed











subsection \<open>Reassembling the compilation database\<close>











end
